theory Spec2Isabelle
  imports Complex_Main "HOL-Library.Sublist"
begin

section \<open>Text, character classes and string helpers\<close>

text \<open>
  A Python \<open>str\<close> is modelled as a \<open>string\<close>. The character classes below are the
  ones Python's \<open>re\<close> module and the \<open>str\<close> methods use on ASCII text: the model
  speaks about ASCII documents.
\<close>

definition NL :: char where
  "NL = CHR 0x0A"

text \<open>\<open>\s\<close>, \<open>str.isspace\<close>: the characters \<open>str.strip\<close> and \<open>str.split\<close> treat as blank.\<close>

definition is_space :: "char \<Rightarrow> bool" where
  "is_space c = (c \<in> set [CHR 0x09, CHR 0x0A, CHR 0x0B, CHR 0x0C, CHR 0x0D,
                           CHR 0x1C, CHR 0x1D, CHR 0x1E, CHR 0x1F, CHR 0x20])"

text \<open>\<open>\w\<close>: letters, digits and underscore.\<close>

definition is_word :: "char \<Rightarrow> bool" where
  "is_word c = (let n = (of_char c :: nat) in
     (48 \<le> n \<and> n \<le> 57) \<or> (65 \<le> n \<and> n \<le> 90) \<or> n = 95 \<or> (97 \<le> n \<and> n \<le> 122))"

text \<open>\<open>.\<close> without DOTALL: every character but the newline.\<close>

definition is_dot :: "char \<Rightarrow> bool" where
  "is_dot c = (c \<noteq> NL)"

definition lower_char :: "char \<Rightarrow> char" where
  "lower_char c = (let n = (of_char c :: nat) in
     if 65 \<le> n \<and> n \<le> 90 then char_of (n + 32) else c)"

definition lower :: "string \<Rightarrow> string" where
  "lower s = map lower_char s"

definition strip :: "string \<Rightarrow> string" where
  "strip s = rev (dropWhile is_space (rev (dropWhile is_space s)))"

text \<open>\<open>str.split()\<close> with no argument: the maximal runs of non-blank characters.\<close>

fun split_acc :: "string \<Rightarrow> string \<Rightarrow> string list" where
  "split_acc cur [] = (if cur = [] then [] else [rev cur])"
| "split_acc cur (c # cs) =
     (if is_space c then (if cur = [] then split_acc [] cs else rev cur # split_acc [] cs)
      else split_acc (c # cur) cs)"

definition split :: "string \<Rightarrow> string list" where
  "split s = split_acc [] s"

text \<open>\<open>str.count(sub)\<close>: the number of non-overlapping occurrences, scanning left to right.\<close>

fun count_from :: "string \<Rightarrow> string \<Rightarrow> nat" where
  "count_from sub [] = 0"
| "count_from sub (c # cs) =
     (if prefix sub (c # cs) then Suc (count_from sub (drop (length sub - 1) cs))
      else count_from sub cs)"

definition count_str :: "string \<Rightarrow> string \<Rightarrow> nat" where
  "count_str s sub = (if sub = [] then Suc (length s) else count_from sub s)"

section \<open>The regular expressions of the program\<close>

text \<open>
  Every repetition in the program's patterns is over a single character class, so a pattern
  is a sequence of items: an anchor, a literal, a repeated class (with its bounds, greedy or
  lazy) or the boundary of the one capture group. The matcher backtracks as \<open>re\<close> does:
  a greedy repetition tries the longest run first, a lazy one the shortest.
\<close>

datatype quant = Greedy | Lazy

datatype item =
    Bol                                      \<comment> \<open>\<open>^\<close> under \<open>re.MULTILINE\<close>\<close>
  | Eol                                      \<comment> \<open>\<open>$\<close> under \<open>re.MULTILINE\<close>\<close>
  | WordB                                    \<comment> \<open>\<open>\b\<close>\<close>
  | Lit string
  | Rep "char \<Rightarrow> bool" nat "nat option" quant
  | GOpen                                    \<comment> \<open>\<open>(\<close>\<close>
  | GClose                                   \<comment> \<open>\<open>)\<close>\<close>

type_synonym pattern = "item list"

primrec first_some :: "('a \<Rightarrow> 'b option) \<Rightarrow> 'a list \<Rightarrow> 'b option" where
  "first_some f [] = None"
| "first_some f (x # xs) = (case f x of Some y \<Rightarrow> Some y | None \<Rightarrow> first_some f xs)"

definition at_bol :: "char option \<Rightarrow> bool" where
  "at_bol prev = (prev = None \<or> prev = Some NL)"

definition at_eol :: "string \<Rightarrow> bool" where
  "at_eol rest = (case rest of [] \<Rightarrow> True | c # _ \<Rightarrow> c = NL)"

definition word_before :: "char option \<Rightarrow> bool" where
  "word_before prev = (case prev of None \<Rightarrow> False | Some c \<Rightarrow> is_word c)"

definition word_after :: "string \<Rightarrow> bool" where
  "word_after rest = (case rest of [] \<Rightarrow> False | c # _ \<Rightarrow> is_word c)"

definition prev_after :: "char option \<Rightarrow> string \<Rightarrow> nat \<Rightarrow> char option" where
  "prev_after prev rest k = (if k = 0 then prev else Some (rest ! (k - 1)))"

definition run_length :: "(char \<Rightarrow> bool) \<Rightarrow> nat option \<Rightarrow> string \<Rightarrow> nat" where
  "run_length cls hi rest =
     (let n = length (takeWhile cls rest) in case hi of None \<Rightarrow> n | Some h \<Rightarrow> min h n)"

definition counts :: "quant \<Rightarrow> nat \<Rightarrow> nat \<Rightarrow> nat list" where
  "counts q lo n = (case q of Greedy \<Rightarrow> rev [lo..<Suc n] | Lazy \<Rightarrow> [lo..<Suc n])"

text \<open>
  \<open>match_here p prev rest gs n\<close> matches the items \<open>p\<close> at a position whose preceding
  character is \<open>prev\<close> and whose remaining text is \<open>rest\<close>; \<open>n\<close> characters of the match
  are already consumed, \<open>gs\<close> is the consumed count where the group opened and \<open>g\<close> the
  group's span once closed. The result is the first successful alternative in
  backtracking order: the group's span and the length of the whole match.
\<close>

primrec match_here ::
  "pattern \<Rightarrow> char option \<Rightarrow> string \<Rightarrow> nat \<Rightarrow> (nat \<times> nat) \<Rightarrow> nat \<Rightarrow> ((nat \<times> nat) \<times> nat) option"
where
  "match_here [] prev rest gs g n = Some (g, n)"
| "match_here (it # p) prev rest gs g n =
     (case it of
        Bol \<Rightarrow> if at_bol prev then match_here p prev rest gs g n else None
      | Eol \<Rightarrow> if at_eol rest then match_here p prev rest gs g n else None
      | WordB \<Rightarrow> if word_before prev \<noteq> word_after rest
                 then match_here p prev rest gs g n else None
      | Lit s \<Rightarrow> if prefix s rest
                 then match_here p (prev_after prev rest (length s)) (drop (length s) rest)
                        gs g (n + length s)
                 else None
      | Rep cls lo hi q \<Rightarrow>
          first_some
            (\<lambda>k. match_here p (prev_after prev rest k) (drop k rest) gs g (n + k))
            (counts q lo (run_length cls hi rest))
      | GOpen \<Rightarrow> match_here p prev rest n g n
      | GClose \<Rightarrow> match_here p prev rest gs (gs, n) n)"

text \<open>A match at a position: the captured group and the number of characters matched.\<close>

definition match_at :: "pattern \<Rightarrow> char option \<Rightarrow> string \<Rightarrow> (string \<times> nat) option" where
  "match_at p prev rest =
     (case match_here p prev rest 0 (0, 0) 0 of
        None \<Rightarrow> None
      | Some ((a, b), n) \<Rightarrow> Some (take (b - a) (drop a rest), n))"

text \<open>The replacement templates the program uses: a constant text or \<open>\1\<close>.\<close>

datatype repl = Const string | Group1

fun expand :: "repl \<Rightarrow> string \<Rightarrow> string" where
  "expand (Const s) cap = s"
| "expand Group1 cap = cap"

text \<open>
  \<open>re.sub\<close>: scan left to right; at a match emit the replacement and continue after it,
  otherwise copy one character. After an empty match one character is copied (no pattern
  of the program can match the empty string, see \<open>program_patterns_nonempty\<close>).
\<close>

function sub_from :: "pattern \<Rightarrow> repl \<Rightarrow> char option \<Rightarrow> string \<Rightarrow> string" where
  "sub_from p r prev rest =
     (case match_at p prev rest of
        Some (cap, k) \<Rightarrow>
          if 0 < k \<and> k \<le> length rest
          then expand r cap @ sub_from p r (prev_after prev rest k) (drop k rest)
          else expand r cap @
               (case rest of [] \<Rightarrow> [] | c # cs \<Rightarrow> c # sub_from p r (Some c) cs)
      | None \<Rightarrow> (case rest of [] \<Rightarrow> [] | c # cs \<Rightarrow> c # sub_from p r (Some c) cs))"
  by pat_completeness auto
termination
  by (relation "measure (\<lambda>(p, r, prev, rest). length rest)") auto

declare sub_from.simps [simp del]

definition re_sub :: "pattern \<Rightarrow> repl \<Rightarrow> string \<Rightarrow> string" where
  "re_sub p r s = sub_from p r None s"

text \<open>\<open>re.findall\<close>, as the list of the matched texts (the program only counts them or, for
  the word pattern, which has no group, uses them as they are).\<close>

function findall_from :: "pattern \<Rightarrow> char option \<Rightarrow> string \<Rightarrow> string list" where
  "findall_from p prev rest =
     (case match_at p prev rest of
        Some (cap, k) \<Rightarrow>
          if 0 < k \<and> k \<le> length rest
          then take k rest # findall_from p (prev_after prev rest k) (drop k rest)
          else [] # (case rest of [] \<Rightarrow> [] | c # cs \<Rightarrow> findall_from p (Some c) cs)
      | None \<Rightarrow> (case rest of [] \<Rightarrow> [] | c # cs \<Rightarrow> findall_from p (Some c) cs))"
  by pat_completeness auto
termination
  by (relation "measure (\<lambda>(p, prev, rest). length rest)") auto

declare findall_from.simps [simp del]

definition re_findall :: "pattern \<Rightarrow> string \<Rightarrow> string list" where
  "re_findall p s = findall_from p None s"

text \<open>\<open>re.search(...).group(1)\<close>: the group of the leftmost match, if any.\<close>

fun search_from :: "pattern \<Rightarrow> char option \<Rightarrow> string \<Rightarrow> string option" where
  "search_from p prev [] = map_option fst (match_at p prev [])"
| "search_from p prev (c # cs) =
     (case match_at p prev (c # cs) of
        Some (cap, k) \<Rightarrow> Some cap
      | None \<Rightarrow> search_from p (Some c) cs)"

definition re_search :: "pattern \<Rightarrow> string \<Rightarrow> string option" where
  "re_search p s = search_from p None s"

text \<open>The patterns, in the order they appear in the source.\<close>

definition title_pat :: pattern where  \<comment> \<open>\<open>^#\s+(.+)$\<close>\<close>
  "title_pat = [Bol, Lit ''#'', Rep is_space 1 None Greedy,
                GOpen, Rep is_dot 1 None Greedy, GClose, Eol]"

definition header_pat :: pattern where  \<comment> \<open>\<open>^#{1,6}\s+.*$\<close>\<close>
  "header_pat = [Bol, Rep (\<lambda>c. c = CHR ''#'') 1 (Some 6) Greedy, Rep is_space 1 None Greedy,
                 Rep is_dot 0 None Greedy, Eol]"

definition link_pat :: pattern where  \<comment> \<open>\<open>\[([^\]]+)\]\([^\)]+\)\<close>\<close>
  "link_pat = [Lit ''['', GOpen, Rep (\<lambda>c. c \<noteq> CHR '']'') 1 None Greedy, GClose, Lit '']'',
               Lit ''('', Rep (\<lambda>c. c \<noteq> CHR '')'') 1 None Greedy, Lit '')'']"

definition image_pat :: pattern where  \<comment> \<open>\<open>!\[([^\]]*)\]\([^\)]+\)\<close>\<close>
  "image_pat = [Lit ''!'', Lit ''['', GOpen, Rep (\<lambda>c. c \<noteq> CHR '']'') 0 None Greedy, GClose,
                Lit '']'', Lit ''('', Rep (\<lambda>c. c \<noteq> CHR '')'') 1 None Greedy, Lit '')'']"

definition codeblock_pat :: pattern where  \<comment> \<open>three backticks, \<open>[\s\S]*?\<close>, three backticks\<close>
  "codeblock_pat = [Lit ''```'', Rep (\<lambda>c. True) 0 None Lazy, Lit ''```'']"

definition inline_pat :: pattern where  \<comment> \<open>backtick, \<open>([^`]+)\<close>, backtick\<close>
  "inline_pat = [Lit ''`'', GOpen, Rep (\<lambda>c. c \<noteq> CHR ''`'') 1 None Greedy, GClose, Lit ''`'']"

definition bold_pat :: pattern where  \<comment> \<open>\<open>\*\*([^\*]+)\*\*\<close>\<close>
  "bold_pat = [Lit ''**'', GOpen, Rep (\<lambda>c. c \<noteq> CHR ''*'') 1 None Greedy, GClose, Lit ''**'']"

definition italic_pat :: pattern where  \<comment> \<open>\<open>\*([^\*]+)\*\<close>\<close>
  "italic_pat = [Lit ''*'', GOpen, Rep (\<lambda>c. c \<noteq> CHR ''*'') 1 None Greedy, GClose, Lit ''*'']"

definition is_bullet :: "char \<Rightarrow> bool" where  \<comment> \<open>\<open>[-\*\+]\<close>\<close>
  "is_bullet c = (c \<in> set [CHR ''-'', CHR ''*'', CHR ''+''])"

definition list_pat :: pattern where  \<comment> \<open>\<open>^[\s]*[-\*\+]\s+\<close>\<close>
  "list_pat = [Bol, Rep is_space 0 None Greedy, Rep is_bullet 1 (Some 1) Greedy,
               Rep is_space 1 None Greedy]"

definition word_pat :: pattern where  \<comment> \<open>\<open>\b\w+\b\<close>\<close>
  "word_pat = [WordB, Rep is_word 1 None Greedy, WordB]"

definition subheading_pat :: pattern where  \<comment> \<open>\<open>^#{2,6}\s+.+\<close>\<close>
  "subheading_pat = [Bol, Rep (\<lambda>c. c = CHR ''#'') 2 (Some 6) Greedy, Rep is_space 1 None Greedy,
                     Rep is_dot 1 None Greedy]"

definition ws_pat :: pattern where  \<comment> \<open>\<open>\s+\<close>\<close>
  "ws_pat = [Rep is_space 1 None Greedy]"

section \<open>The analyzer\<close>

text \<open>\<open>_clean_markdown\<close>: the eight rewriting steps in the source's order, then \<open>strip\<close>.\<close>

definition clean_markdown :: "string \<Rightarrow> string" where
  "clean_markdown text0 =
     (let text1 = re_sub header_pat (Const []) text0;
          text2 = re_sub link_pat Group1 text1;
          text3 = re_sub image_pat (Const []) text2;
          text4 = re_sub codeblock_pat (Const []) text3;
          text5 = re_sub inline_pat Group1 text4;
          text6 = re_sub bold_pat Group1 text5;
          text7 = re_sub italic_pat Group1 text6;
          text8 = re_sub list_pat (Const []) text7
      in strip text8)"

datatype error = KeyError string | ZeroDivisionError

text \<open>The dictionaries the three analyses return. A key that a dictionary may lack is an
  optional field: \<open>None\<close> is the absent key.\<close>

record title_result =
  score_t :: int
  length_t :: "nat option"
  issues_t :: "string list"
  suggestions_t :: "string list option"

record content_result =
  score_c :: int
  word_count_c :: nat
  keywords_c :: "string list"
  issues_c :: "string list"
  suggestions_c :: "string list"

record structure_result =
  score_s :: int
  headings_count :: nat
  lists_count :: nat
  links_count :: nat
  issues_s :: "string list"
  suggestions_s :: "string list"

record results =
  title_analysis :: title_result
  content_analysis :: content_result
  structure_analysis :: structure_result
  meta_description :: string
  overall_score :: rat

text \<open>The fields of a \<open>BlogSEOAnalyzer\<close>; \<open>analysis_results = None\<close> is the empty
  dictionary of \<open>__init__\<close>.\<close>

record analyzer =
  file_path :: string
  content :: string
  title :: string
  word_count :: nat
  keywords_a :: "string list"
  analysis_results :: "results option"

definition init :: "string \<Rightarrow> analyzer" where
  "init path = \<lparr>file_path = path, content = [], title = [], word_count = 0,
                 keywords_a = [], analysis_results = None\<rparr>"

text \<open>What \<open>open\<close> and \<open>read\<close> do for a path: \<open>FileNotFoundError\<close>, another
  exception (with its message), or the decoded text.\<close>

datatype read_result = FileNotFound | ReadFailure string | FileText string

text \<open>\<open>load_content\<close> returns its boolean, the lines it printed and the analyzer.\<close>

definition load_content :: "read_result \<Rightarrow> analyzer \<Rightarrow> bool \<times> string list \<times> analyzer" where
  "load_content rd a =
     (case rd of
        FileText txt \<Rightarrow>
          (let a1 = a\<lparr>content := txt\<rparr>;
               a2 = (case re_search title_pat (content a1) of
                       Some g \<Rightarrow> a1\<lparr>title := strip g\<rparr>
                     | None \<Rightarrow> a1);
               a3 = a2\<lparr>content := clean_markdown (content a2)\<rparr>
           in (True, [], a3))
      | FileNotFound \<Rightarrow>
          (False, [''Error: File '' @ [CHR 0x27] @ file_path a @ [CHR 0x27] @ '' not found.''], a)
      | ReadFailure msg \<Rightarrow> (False, [''Error reading file: '' @ msg], a))"

definition analyze_title :: "analyzer \<Rightarrow> title_result" where
  "analyze_title a =
     (if title a = []
      then \<lparr>score_t = 0, length_t = None,
             issues_t = [''No title found (first # heading)''], suggestions_t = None\<rparr>
      else
        (let len = length (title a);
             score = (100 :: int);
             issues = [];
             (score, issues) =
               (if len < 30 then (score - 30, issues @ [''Title too short (< 30 characters)''])
                else if len > 60 then (score - 20, issues @ [''Title too long (> 60 characters)''])
                else (score, issues));
             words = split (lower (title a));
             (score, issues) =
               (if length words < 3
                then (score - 10, issues @ [''Title lacks descriptive keywords''])
                else (score, issues))
         in \<lparr>score_t = max 0 score, length_t = Some len, issues_t = issues,
              suggestions_t = Some [''Include primary keyword in title'',
                                    ''Keep title between 30-60 characters'']\<rparr>))"

definition stop_words :: "string list" where
  "stop_words = [''the'', ''a'', ''an'', ''and'', ''or'', ''but'', ''in'', ''on'', ''at'', ''to'',
     ''for'', ''of'', ''with'', ''by'', ''is'', ''are'', ''was'', ''were'', ''be'', ''been'',
     ''being'', ''have'', ''has'', ''had'', ''do'', ''does'', ''did'', ''will'', ''would'',
     ''could'', ''should'', ''may'', ''might'', ''must'', ''can'', ''shall'']"

text \<open>\<open>Counter(words)\<close>: a dictionary in insertion order, a word's count bumped in place.\<close>

fun counter_add :: "(string \<times> nat) list \<Rightarrow> string \<Rightarrow> (string \<times> nat) list" where
  "counter_add [] w = [(w, 1)]"
| "counter_add ((k, c) # kvs) w =
     (if k = w then (k, Suc c) # kvs else (k, c) # counter_add kvs w)"

definition Counter :: "string list \<Rightarrow> (string \<times> nat) list" where
  "Counter ws = foldl counter_add [] ws"

text \<open>\<open>most_common(n)\<close>: by descending count, equal counts in insertion order
  (\<open>sort_key\<close> is stable).\<close>

definition most_common :: "nat \<Rightarrow> (string \<times> nat) list \<Rightarrow> (string \<times> nat) list" where
  "most_common n cnt = take n (sort_key (\<lambda>(w, c). - int c) cnt)"

text \<open>The keyword block of \<open>analyze_content\<close>: drop stop words and short tokens, count,
  keep those of the ten most common that occur more than once.\<close>

definition top_keywords :: "string list \<Rightarrow> string list" where
  "top_keywords words =
     (let filtered_words = filter (\<lambda>word. word \<notin> set stop_words \<and> length word > 2) words;
          word_freq = Counter filtered_words
      in map fst (filter (\<lambda>(word, count). count > 1) (most_common 10 word_freq)))"

text \<open>
  The density block of \<open>analyze_content\<close>, run when the keyword list is not empty. The
  division raises \<open>ZeroDivisionError\<close> on a zero word count. The density is computed in
  exact arithmetic; the program's floating-point quotient decides the two comparisons the
  same way for every word count a document can have.
\<close>

definition density_check :: "analyzer \<Rightarrow> int \<times> string list \<Rightarrow> error + (int \<times> string list)" where
  "density_check a si =
     (case keywords_a a of
        [] \<Rightarrow> Inr si
      | primary_keyword # _ \<Rightarrow>
          if word_count a = 0 then Inl ZeroDivisionError
          else
            (let density = (rat_of_nat (count_str (lower (content a)) primary_keyword)
                              / rat_of_nat (word_count a)) * 100;
                 (score, issues) = si
             in Inr (if density < 1 / 2
                     then (score - 15, issues @ [''Low keyword density (< 0.5%)''])
                     else if density > 3
                     then (score - 10,
                           issues @ [''High keyword density (> 3% - may be keyword stuffing)''])
                     else (score, issues))))"

definition analyze_content :: "analyzer \<Rightarrow> error + (content_result \<times> analyzer)" where
  "analyze_content a =
     (let words = re_findall word_pat (lower (content a));
          a = a\<lparr>word_count := length words\<rparr>;
          score = (100 :: int);
          issues = [];
          (score, issues) =
            (if word_count a < 300 then (score - 40, issues @ [''Content too short (< 300 words)''])
             else if word_count a > 2000
             then (score - 10, issues @ [''Content very long (> 2000 words)''])
             else (score, issues));
          a = a\<lparr>keywords_a := top_keywords words\<rparr>
      in case density_check a (score, issues) of
           Inl e \<Rightarrow> Inl e
         | Inr (score, issues) \<Rightarrow>
             Inr (\<lparr>score_c = max 0 score, word_count_c = word_count a,
                   keywords_c = take 5 (keywords_a a), issues_c = issues,
                   suggestions_c = [''Aim for 300-1500 words'', ''Use primary keyword naturally'',
                                    ''Include related keywords'']\<rparr>, a))"

definition analyze_structure :: "analyzer \<Rightarrow> structure_result" where
  "analyze_structure a =
     (let score = (100 :: int);
          issues = [];
          headings = re_findall subheading_pat (content a);
          (score, issues) =
            (if length headings < 2
             then (score - 20, issues @ [''Few or no subheadings (H2-H6)''])
             else (score, issues));
          lists = length (re_findall list_pat (content a));
          (score, issues) =
            (if lists < 1 then (score - 10, issues @ [''No bullet lists found''])
             else (score, issues));
          links = length (re_findall link_pat (content a));
          (score, issues) =
            (if links < 1 then (score - 5, issues @ [''No internal/external links''])
             else (score, issues))
      in \<lparr>score_s = max 0 score, headings_count = length headings, lists_count = lists,
           links_count = links, issues_s = issues,
           suggestions_s = [''Use H2/H3 headings to structure content'',
                            ''Include bullet lists for readability'',
                            ''Add relevant internal/external links'']\<rparr>)"

definition generate_meta_description :: "analyzer \<Rightarrow> string" where
  "generate_meta_description a =
     (if title a = [] then ''No title available for meta description generation''
      else
        (let clean_content = re_sub ws_pat (Const '' '') (strip (content a))
         in if length clean_content > 150 then take 147 clean_content @ ''...''
            else clean_content))"

text \<open>\<open>round(x, 1)\<close>: to the nearest tenth, a tie to the even one.\<close>

definition round_half_even :: "rat \<Rightarrow> int" where
  "round_half_even q =
     (let f = \<lfloor>q\<rfloor>; d = q - of_int f
      in if d < 1 / 2 then f else if d > 1 / 2 then f + 1 else if even f then f else f + 1)"

definition round1 :: "rat \<Rightarrow> rat" where
  "round1 x = of_int (round_half_even (x * 10)) / 10"

text \<open>\<open>run_analysis\<close>: the lines printed, and the result (\<open>None\<close> is Python's \<open>None\<close>)
  with the analyzer as the call leaves it; \<open>Inl\<close> is an exception that escapes.\<close>

definition run_analysis ::
  "read_result \<Rightarrow> analyzer \<Rightarrow> error + (string list \<times> results option \<times> analyzer)" where
  "run_analysis rd a =
     (case load_content rd a of
        (False, out, a) \<Rightarrow> Inr (out, None, a)
      | (True, out, a) \<Rightarrow>
          (let ta = analyze_title a in
           case analyze_content a of
             Inl e \<Rightarrow> Inl e
           | Inr (ca, a) \<Rightarrow>
               (let sa = analyze_structure a;
                    md = generate_meta_description a;
                    scores = [score_t ta, score_c ca, score_s sa];
                    overall = rat_of_int (sum_list scores) / rat_of_nat (length scores);
                    res = \<lparr>title_analysis = ta, content_analysis = ca,
                            structure_analysis = sa, meta_description = md,
                            overall_score = round1 overall\<rparr>
                in Inr (out, Some res, a\<lparr>analysis_results := Some res\<rparr>))))"

section \<open>The report and the command line\<close>

function show_nat :: "nat \<Rightarrow> string" where
  "show_nat n = (if n < 10 then [char_of (48 + n)]
                 else show_nat (n div 10) @ [char_of (48 + n mod 10)])"
  by pat_completeness auto
termination
  by (relation "measure id") auto

declare show_nat.simps [simp del]

definition show_int :: "int \<Rightarrow> string" where
  "show_int i = (if i < 0 then CHR ''-'' # show_nat (nat (- i)) else show_nat (nat i))"

text \<open>How Python prints a float that is a whole number of tenths: \<open>61.7\<close>, \<open>60.0\<close>.\<close>

definition show_float1 :: "rat \<Rightarrow> string" where
  "show_float1 q =
     (let k = \<lfloor>q * 10\<rfloor>; m = nat \<bar>k\<bar>
      in (if k < 0 then ''-'' else []) @ show_nat (m div 10) @ ''.'' @ show_nat (m mod 10))"

definition basename :: "string \<Rightarrow> string" where
  "basename p = rev (takeWhile (\<lambda>c. c \<noteq> CHR ''/'') (rev p))"

fun join :: "string \<Rightarrow> string list \<Rightarrow> string" where
  "join sep [] = []"
| "join sep [x] = x"
| "join sep (x # y # ys) = x @ sep @ join sep (y # ys)"

definition rule50 :: string where
  "rule50 = replicate 50 CHR ''=''"

text \<open>The pictographs of the section headers, as the UTF-8 bytes standard output receives.\<close>

definition bar_chart :: string where
  "bar_chart = [CHR 0xF0, CHR 0x9F, CHR 0x93, CHR 0x8A]"

definition memo :: string where
  "memo = [CHR 0xF0, CHR 0x9F, CHR 0x93, CHR 0x9D]"

definition page :: string where
  "page = [CHR 0xF0, CHR 0x9F, CHR 0x93, CHR 0x84]"

definition crane :: string where
  "crane = [CHR 0xF0, CHR 0x9F, CHR 0x8F, CHR 0x97, CHR 0xEF, CHR 0xB8, CHR 0x8F]"

definition magnifier :: string where
  "magnifier = [CHR 0xF0, CHR 0x9F, CHR 0x94, CHR 0x8D]"

definition bullets :: "string \<Rightarrow> string list \<Rightarrow> string list" where
  "bullets heading xs = (if xs = [] then [] else heading # map (\<lambda>x. ''   - '' @ x) xs)"

text \<open>
  The title section of \<open>print_report\<close>. The two subscripts \<open>['length']\<close> and
  \<open>['suggestions']\<close> raise \<open>KeyError\<close> when the dictionary lacks the key; the lines
  printed before the exception stay printed.
\<close>

definition print_title_section :: "analyzer \<Rightarrow> title_result \<Rightarrow> string list \<times> error option" where
  "print_title_section a ta =
     (let out = [[], memo @ '' Title Analysis (Score: '' @ show_int (score_t ta) @ ''/100)''] in
      case (if title a \<noteq> []
            then (case length_t ta of
                    None \<Rightarrow> (out @ [''   Title: '' @ title a], Some (KeyError ''length''))
                  | Some len \<Rightarrow>
                      (out @ [''   Title: '' @ title a,
                              ''   Length: '' @ show_nat len @ '' characters''], None))
            else (out, None)) of
        (out, Some e) \<Rightarrow> (out, Some e)
      | (out, None) \<Rightarrow>
          (let out = out @ bullets ''   Issues:'' (issues_t ta) in
           case suggestions_t ta of
             None \<Rightarrow> (out, Some (KeyError ''suggestions''))
           | Some sugs \<Rightarrow> (out @ bullets ''   Suggestions:'' sugs, None)))"

definition print_content_section :: "analyzer \<Rightarrow> content_result \<Rightarrow> string list" where
  "print_content_section a ca =
     [[], page @ '' Content Analysis (Score: '' @ show_int (score_c ca) @ ''/100)'',
      ''   Word Count: '' @ show_nat (word_count_c ca)]
     @ (if keywords_a a \<noteq> [] then [''   Top Keywords: '' @ join '', '' (take 3 (keywords_a a))]
        else [])
     @ bullets ''   Issues:'' (issues_c ca)
     @ bullets ''   Suggestions:'' (suggestions_c ca)"

definition print_structure_section :: "structure_result \<Rightarrow> string list" where
  "print_structure_section sa =
     [[], crane @ ''  Structure Analysis (Score: '' @ show_int (score_s sa) @ ''/100)'',
      ''   Headings: '' @ show_nat (headings_count sa),
      ''   Lists: '' @ show_nat (lists_count sa),
      ''   Links: '' @ show_nat (links_count sa)]
     @ bullets ''   Issues:'' (issues_s sa)
     @ bullets ''   Suggestions:'' (suggestions_s sa)"

text \<open>\<open>print_report\<close>: the lines written to standard output and the exception that ended
  the call, if one did.\<close>

definition print_report :: "analyzer \<Rightarrow> string list \<times> error option" where
  "print_report a =
     (case analysis_results a of
        None \<Rightarrow> ([], None)
      | Some r \<Rightarrow>
          (let out = [[], rule50, ''SEO Analysis Report for: '' @ basename (file_path a), rule50,
                      [], bar_chart @ '' Overall SEO Score: '' @ show_float1 (overall_score r)
                            @ ''/100'']
           in case print_title_section a (title_analysis r) of
                (ls, Some e) \<Rightarrow> (out @ ls, Some e)
              | (ls, None) \<Rightarrow>
                  (out @ ls @ print_content_section a (content_analysis r)
                   @ print_structure_section (structure_analysis r)
                   @ [[], magnifier @ '' Suggested Meta Description:'',
                      ''   '' @ meta_description r, [], rule50], None)))"

text \<open>
  \<open>main\<close> for a command line \<open>argv\<close> and a file system \<open>fs\<close>: standard output, the exit
  code, and the exception that escaped, if any (Python then exits with code 1).
\<close>

definition main :: "(string \<Rightarrow> read_result) \<Rightarrow> string list \<Rightarrow> string list \<times> nat \<times> error option" where
  "main fs argv =
     (if length argv \<noteq> 2
      then ([''Usage: python blog_seo_analyzer.py <markdown_file>'',
             ''Example: python blog_seo_analyzer.py my_blog_post.md''], 1, None)
      else
        (let path = argv ! 1;
             analyzer = init path
         in case run_analysis (fs path) analyzer of
              Inl e \<Rightarrow> ([], 1, Some e)
            | Inr (out, None, analyzer) \<Rightarrow> (out, 1, None)
            | Inr (out, Some res, analyzer) \<Rightarrow>
                (case print_report analyzer of
                   (ls, None) \<Rightarrow> (out @ ls, 0, None)
                 | (ls, Some e) \<Rightarrow> (out @ ls, 1, Some e))))"

section \<open>Definitions used to state the properties\<close>

text \<open>The least number of characters a pattern consumes.\<close>

fun item_min :: "item \<Rightarrow> nat" where
  "item_min (Lit s) = length s"
| "item_min (Rep cls lo hi q) = lo"
| "item_min it = 0"

definition min_len :: "pattern \<Rightarrow> nat" where
  "min_len p = sum_list (map item_min p)"

text \<open>A text without markdown syntax: none of the eight rewriting patterns of
  \<open>_clean_markdown\<close> matches anywhere in it.\<close>

definition plain_text :: "string \<Rightarrow> bool" where
  "plain_text t =
     (re_search header_pat t = None \<and> re_search link_pat t = None \<and>
      re_search image_pat t = None \<and> re_search codeblock_pat t = None \<and>
      re_search inline_pat t = None \<and> re_search bold_pat t = None \<and>
      re_search italic_pat t = None \<and> re_search list_pat t = None)"



text \<open>
  A file system for an example: \<open>plainfile.md\<close> is a regular file, so a path below it does
  not resolve to a file and \<open>open\<close> raises \<open>NotADirectoryError\<close>, whose text is
  \<open>[Errno 20] Not a directory: '<path>'\<close>; every other path has no entry.
\<close>

definition sample_fs :: "string \<Rightarrow> read_result" where
  "sample_fs p =
     (if p = ''plainfile.md'' then FileText ''# Post''
      else if prefix ''plainfile.md/'' p
      then ReadFailure (''[Errno 20] Not a directory: '' @ [CHR 0x27] @ p @ [CHR 0x27])
      else FileNotFound)"

section \<open>Evaluation lemmas\<close>

lemma load_not_found:
  "load_content FileNotFound a =
     (False, [''Error: File '' @ [CHR 0x27] @ file_path a @ [CHR 0x27] @ '' not found.''], a)"
  by (simp add: load_content_def)

lemma load_text:
  "load_content (FileText txt) a =
     (True, [], (case re_search title_pat txt of Some g \<Rightarrow> a\<lparr>title := strip g\<rparr> | None \<Rightarrow> a)
                  \<lparr>content := clean_markdown txt\<rparr>)"
  by (simp add: load_content_def Let_def split: option.splits)

lemma search_title_empty: "re_search title_pat [] = None"
  by code_simp

lemma clean_markdown_empty: "clean_markdown [] = []"
  by code_simp

text \<open>Rounding a third of an integer to one decimal never meets a tie.\<close>

lemma round1_third: "round1 (rat_of_int s / 3) = rat_of_int ((10 * s + 1) div 3) / 10"
proof -
  define n where "n = 10 * s"
  have fl: "\<lfloor>rat_of_int n / 3\<rfloor> = n div 3"
    using floor_divide_of_int_eq [of n 3, where ?'a = rat] by simp
  have split: "rat_of_int n = 3 * rat_of_int (n div 3) + rat_of_int (n mod 3)"
    by (metis mult_div_mod_eq of_int_add of_int_mult of_int_numeral)
  have d: "rat_of_int n / 3 - rat_of_int (n div 3) = rat_of_int (n mod 3) / 3"
    by (simp add: split add_divide_distrib)
  have x: "rat_of_int s / 3 * 10 = rat_of_int n / 3"
    by (simp add: n_def)
  have m: "n mod 3 = 0 \<or> n mod 3 = 1 \<or> n mod 3 = 2"
    by presburger
  have dv: "n mod 3 = 0 \<Longrightarrow> (n + 1) div 3 = n div 3"
    "n mod 3 = 1 \<Longrightarrow> (n + 1) div 3 = n div 3"
    "n mod 3 = 2 \<Longrightarrow> (n + 1) div 3 = n div 3 + 1"
    by presburger+
  from m have "round_half_even (rat_of_int n / 3) = (n + 1) div 3"
    unfolding round_half_even_def Let_def fl d
    by (elim disjE) (simp_all add: dv)
  then show ?thesis by (simp add: round1_def x n_def mult.commute)
qed

section \<open>The file that cannot be opened\<close>

lemma load_read_failure:
  "load_content (ReadFailure msg) a = (False, [''Error reading file: '' @ msg], a)"
  by (simp add: load_content_def)

lemma sample_missing: "sample_fs ''missing.md'' = FileNotFound"
  by (simp add: sample_fs_def)

lemma sample_below_file:
  "sample_fs ''plainfile.md/x'' =
     ReadFailure (''[Errno 20] Not a directory: '' @ [CHR 0x27] @ ''plainfile.md/x'' @ [CHR 0x27])"
  by (simp add: sample_fs_def)

text \<open>
  Claim C10, as the code has it: when opening the path raises \<open>FileNotFoundError\<close>, the
  program prints exactly the one line \<open>Error: File '<path>' not found.\<close>; when opening or
  reading fails with any other exception, it prints exactly the one line
  \<open>Error reading file: <message>\<close>. In both cases \<open>load_content\<close> returns \<open>False\<close>,
  \<open>run_analysis\<close> returns \<open>None\<close> and leaves the analyzer as \<open>__init__\<close> built it (no
  analysis ran, no report line is printed), and the exit code is 1.
\<close>

theorem open_failure_exit:
  "(fs path = FileNotFound \<longrightarrow>
      main fs [prog, path] =
        ([''Error: File '' @ [CHR 0x27] @ path @ [CHR 0x27] @ '' not found.''], 1, None)
      \<and> fst (load_content (fs path) (init path)) = False
      \<and> run_analysis (fs path) (init path) =
          Inr ([''Error: File '' @ [CHR 0x27] @ path @ [CHR 0x27] @ '' not found.''],
               None, init path))
   \<and> (fs path = ReadFailure msg \<longrightarrow>
      main fs [prog, path] = ([''Error reading file: '' @ msg], 1, None)
      \<and> fst (load_content (fs path) (init path)) = False
      \<and> run_analysis (fs path) (init path) =
          Inr ([''Error reading file: '' @ msg], None, init path))"
  by (simp add: main_def run_analysis_def load_not_found load_read_failure init_def)

theorem open_failure_exit_witness:
  "sample_fs ''missing.md'' = FileNotFound
   \<and> main sample_fs [''blog_seo_analyser.py'', ''missing.md''] =
       ([''Error: File '' @ [CHR 0x27] @ ''missing.md'' @ [CHR 0x27] @ '' not found.''], 1, None)
   \<and> sample_fs ''plainfile.md/x'' =
       ReadFailure (''[Errno 20] Not a directory: '' @ [CHR 0x27] @ ''plainfile.md/x'' @ [CHR 0x27])
   \<and> main sample_fs [''blog_seo_analyser.py'', ''plainfile.md/x''] =
       ([''Error reading file: [Errno 20] Not a directory: '' @ [CHR 0x27] @ ''plainfile.md/x''
           @ [CHR 0x27]], 1, None)"
  using open_failure_exit [where fs = sample_fs and path = "''missing.md''"
      and prog = "''blog_seo_analyser.py''"]
    open_failure_exit [where fs = sample_fs and path = "''plainfile.md/x''"
      and prog = "''blog_seo_analyser.py''"
      and msg = "''[Errno 20] Not a directory: '' @ [CHR 0x27] @ ''plainfile.md/x'' @ [CHR 0x27]"]
    sample_missing sample_below_file
  by simp

text \<open>
  Not every path that fails to resolve to an existing file gets the \<open>not found\<close> line: in
  \<open>sample_fs\<close> the path \<open>plainfile.md/x\<close> lies below a regular file, \<open>open\<close> raises
  \<open>NotADirectoryError\<close>, and the general handler prints its message instead.
\<close>

theorem not_a_directory_counterexample:
  "sample_fs ''plainfile.md/x'' \<noteq> FileNotFound
   \<and> fst (main sample_fs [''blog_seo_analyser.py'', ''plainfile.md/x'']) =
       [''Error reading file: [Errno 20] Not a directory: '' @ [CHR 0x27] @ ''plainfile.md/x''
          @ [CHR 0x27]]
   \<and> fst (main sample_fs [''blog_seo_analyser.py'', ''plainfile.md/x'']) \<noteq>
       [''Error: File '' @ [CHR 0x27] @ ''plainfile.md/x'' @ [CHR 0x27] @ '' not found.'']"
  by (simp add: main_def run_analysis_def load_read_failure sample_below_file init_def)

section \<open>The absent title\<close>

text \<open>
  Claim C5, as the code has it: for a document in which no line matches the title pattern,
  the title is absent and \<open>analyze_title\<close> returns score 0, the single issue
  \<open>No title found (first # heading)\<close>, and neither a length nor suggestions.
\<close>

theorem no_title_analysis:
  assumes "re_search title_pat doc = None"
  shows "(case load_content (FileText doc) (init path) of (ok, out, a) \<Rightarrow>
            ok \<and> title a = [] \<and>
            analyze_title a = \<lparr>score_t = 0, length_t = None,
                                issues_t = [''No title found (first # heading)''],
                                suggestions_t = None\<rparr>)"
  using assms by (simp add: load_text analyze_title_def init_def)

theorem no_title_analysis_witness:
  "re_search title_pat [] = None \<and>
   (case load_content (FileText []) (init ''a.md'') of (ok, out, a) \<Rightarrow>
            ok \<and> title a = [] \<and>
            analyze_title a = \<lparr>score_t = 0, length_t = None,
                                issues_t = [''No title found (first # heading)''],
                                suggestions_t = None\<rparr>)"
  using no_title_analysis [OF search_title_empty, of "''a.md''"] search_title_empty by simp

text \<open>The issue text is not the bare \<open>No title found\<close>: the empty document has no title
  line, and its one issue is a longer text.\<close>

theorem no_title_issue_text_counterexample:
  "re_search title_pat [] = None \<and>
   issues_t (analyze_title (snd (snd (load_content (FileText []) (init ''a.md'')))))
     \<noteq> [''No title found'']"
  by (simp add: search_title_empty load_text analyze_title_def init_def)

section \<open>Images\<close>

text \<open>
  Claim C4 says that cleaning removes \<open>![alt](url)\<close> with its alt text. The link rule runs
  before the image rule and rewrites the bracketed part first, so the image rule finds
  nothing left to remove: the exclamation mark and the alt text stay.
\<close>

theorem image_alt_text_remains: "clean_markdown ''![alt](url)'' = ''!alt''"
  by code_simp

section \<open>The scenario of the specification\<close>

lemma hello_search: "re_search title_pat ''# Hello\<newline>\<newline>Short text.'' = Some ''Hello''"
  by code_simp

lemma hello_clean: "clean_markdown ''# Hello\<newline>\<newline>Short text.'' = ''Short text.''"
  by code_simp

lemma hello_strip: "strip ''Hello'' = ''Hello''"
  by code_simp

lemma hello_split: "split (lower ''Hello'') = [''hello'']"
  by code_simp

lemma hello_words: "re_findall word_pat (lower ''Short text.'') = [''short'', ''text'']"
  by code_simp

lemma hello_keywords: "top_keywords [''short'', ''text''] = []"
  by code_simp

lemma hello_headings: "re_findall subheading_pat ''Short text.'' = []"
  by code_simp

lemma hello_lists: "re_findall list_pat ''Short text.'' = []"
  by code_simp

lemma hello_links: "re_findall link_pat ''Short text.'' = []"
  by code_simp

lemma hello_title:
  "title a = ''Hello'' \<Longrightarrow> analyze_title a =
     \<lparr>score_t = 60, length_t = Some 5,
      issues_t = [''Title too short (< 30 characters)'', ''Title lacks descriptive keywords''],
      suggestions_t = Some [''Include primary keyword in title'',
                            ''Keep title between 30-60 characters'']\<rparr>"
  by (simp add: analyze_title_def hello_split Let_def)

lemma hello_content:
  "content a = ''Short text.'' \<Longrightarrow> analyze_content a =
     Inr (\<lparr>score_c = 60, word_count_c = 2, keywords_c = [],
           issues_c = [''Content too short (< 300 words)''],
           suggestions_c = [''Aim for 300-1500 words'', ''Use primary keyword naturally'',
                            ''Include related keywords'']\<rparr>,
          a\<lparr>word_count := 2, keywords_a := []\<rparr>)"
  by (simp add: analyze_content_def density_check_def hello_words hello_keywords Let_def)

lemma hello_structure:
  "content a = ''Short text.'' \<Longrightarrow> analyze_structure a =
     \<lparr>score_s = 65, headings_count = 0, lists_count = 0, links_count = 0,
      issues_s = [''Few or no subheadings (H2-H6)'', ''No bullet lists found'',
                  ''No internal/external links''],
      suggestions_s = [''Use H2/H3 headings to structure content'',
                       ''Include bullet lists for readability'',
                       ''Add relevant internal/external links'']\<rparr>"
  by (simp add: analyze_structure_def hello_headings hello_lists hello_links Let_def)

lemma round1_185: "round1 (185 / 3) = 617 / 10"
  using round1_third [of 185] by simp

text \<open>
  Claim C7: for the document \<open># Hello\n\nShort text.\<close> the analysis yields the title
  \<open>Hello\<close>, title score 60 (too short, lacks keywords), content score 60 with a word count
  of 2 (too short, no density penalty), structure score 65 (no subheadings, lists or links)
  and the overall score 61.7.
\<close>

theorem hello_scenario:
  "\<exists>r a. run_analysis (FileText ''# Hello\<newline>\<newline>Short text.'') (init path) = Inr ([], Some r, a)
     \<and> title a = ''Hello''
     \<and> score_t (title_analysis r) = 60
     \<and> issues_t (title_analysis r) =
          [''Title too short (< 30 characters)'', ''Title lacks descriptive keywords'']
     \<and> score_c (content_analysis r) = 60
     \<and> word_count_c (content_analysis r) = 2
     \<and> issues_c (content_analysis r) = [''Content too short (< 300 words)'']
     \<and> score_s (structure_analysis r) = 65
     \<and> issues_s (structure_analysis r) =
          [''Few or no subheadings (H2-H6)'', ''No bullet lists found'',
           ''No internal/external links'']
     \<and> overall_score r = 617 / 10"
  by (simp add: run_analysis_def load_text hello_search hello_clean hello_strip
        hello_title hello_content hello_structure init_def Let_def round1_185)

section \<open>Keywords and the density division\<close>

lemma counter_add_map_of:
  "map_of (counter_add kvs w) k =
     (if k = w then Some (case map_of kvs w of None \<Rightarrow> 1 | Some c \<Rightarrow> Suc c) else map_of kvs k)"
  by (induction kvs w rule: counter_add.induct) auto

lemma counter_add_keys: "fst ` set (counter_add kvs w) = insert w (fst ` set kvs)"
  by (induction kvs w rule: counter_add.induct) auto

lemma counter_add_distinct:
  "distinct (map fst kvs) \<Longrightarrow> distinct (map fst (counter_add kvs w))"
  by (induction kvs w rule: counter_add.induct) (auto simp: counter_add_keys)

lemma foldl_counter_add:
  "distinct (map fst acc) \<Longrightarrow>
   distinct (map fst (foldl counter_add acc xs)) \<and>
   map_of (foldl counter_add acc xs) k =
     (case map_of acc k of
        None \<Rightarrow> (if k \<in> set xs then Some (count_list xs k) else None)
      | Some c \<Rightarrow> Some (c + count_list xs k))"
proof (induction xs arbitrary: acc)
  case Nil
  then show ?case by (simp split: option.splits)
next
  case (Cons x xs)
  from Cons.prems have "distinct (map fst (counter_add acc x))"
    by (rule counter_add_distinct)
  from Cons.IH [OF this] show ?case
    by (auto simp: counter_add_map_of split: option.splits)
qed

lemma Counter_count:
  assumes "(w, c) \<in> set (Counter xs)"
  shows "c = count_list xs w" and "w \<in> set xs"
proof -
  have d: "distinct (map fst (Counter xs))"
    and m: "map_of (Counter xs) w = (if w \<in> set xs then Some (count_list xs w) else None)"
    using foldl_counter_add [of "[]" xs w] by (simp_all add: Counter_def)
  from assms d have "map_of (Counter xs) w = Some c"
    by simp
  with m show "c = count_list xs w" and "w \<in> set xs"
    by (auto split: if_splits)
qed

lemma most_common_subset: "set (most_common n cnt) \<subseteq> set cnt"
  using set_take_subset [of n "sort_key (\<lambda>(w, c). - int c) cnt"] by (simp add: most_common_def)

lemma count_list_le_length: "count_list xs x \<le> length xs"
  by (induction xs) auto

lemma top_keywords_count:
  assumes "k \<in> set (top_keywords ws)"
  shows "1 < count_list (filter (\<lambda>word. word \<notin> set stop_words \<and> length word > 2) ws) k"
proof -
  let ?fw = "filter (\<lambda>word. word \<notin> set stop_words \<and> length word > 2) ws"
  from assms obtain c where "(k, c) \<in> set (most_common 10 (Counter ?fw))" and "1 < c"
    by (auto simp: top_keywords_def Let_def)
  with most_common_subset have "(k, c) \<in> set (Counter ?fw)"
    by blast
  with Counter_count(1) \<open>1 < c\<close> show ?thesis
    by blast
qed

lemma top_keywords_words:
  assumes "top_keywords ws \<noteq> []"
  shows "2 \<le> length ws"
proof -
  let ?fw = "filter (\<lambda>word. word \<notin> set stop_words \<and> length word > 2) ws"
  from assms have "hd (top_keywords ws) \<in> set (top_keywords ws)"
    by simp
  then have "1 < count_list ?fw (hd (top_keywords ws))"
    by (rule top_keywords_count)
  also have "\<dots> \<le> length ?fw"
    by (rule count_list_le_length)
  also have "\<dots> \<le> length ws"
    by simp
  finally show ?thesis by simp
qed

lemma density_check_total:
  assumes "keywords_a a \<noteq> [] \<Longrightarrow> 0 < word_count a"
  shows "\<exists>score' issues'. density_check a (score, issues) = Inr (score', issues')
           \<and> score - 15 \<le> score' \<and> score' \<le> score"
  using assms by (cases "keywords_a a") (auto simp: density_check_def Let_def)

lemma analyze_content_total:
  "\<exists>r a'. analyze_content a = Inr (r, a')
     \<and> 0 \<le> score_c r \<and> score_c r \<le> 100
     \<and> word_count a' = length (re_findall word_pat (lower (content a)))
     \<and> keywords_a a' = top_keywords (re_findall word_pat (lower (content a)))
     \<and> content a' = content a \<and> title a' = title a \<and> file_path a' = file_path a"
proof -
  let ?ws = "re_findall word_pat (lower (content a))"
  let ?a = "a\<lparr>word_count := length ?ws, keywords_a := top_keywords ?ws\<rparr>"
  have pos: "keywords_a ?a \<noteq> [] \<Longrightarrow> 0 < word_count ?a"
    using top_keywords_words [of ?ws] by fastforce
  show ?thesis
    using density_check_total [OF pos, of "60" "[''Content too short (< 300 words)'']"]
      density_check_total [OF pos, of "90" "[''Content very long (> 2000 words)'']"]
      density_check_total [OF pos, of "100" "[]"]
    by (auto simp: analyze_content_def Let_def)
qed

text \<open>
  Claim C9: when the keyword list that content analysis produces is not empty, its first
  keyword occurs more than once among the filtered tokens, so the word count is at least 2
  and the density division does not divide by zero: \<open>analyze_content\<close> returns a result.
\<close>

theorem keywords_imply_words:
  assumes "top_keywords (re_findall word_pat (lower (content a))) \<noteq> []"
  shows "1 < count_list (filter (\<lambda>word. word \<notin> set stop_words \<and> length word > 2)
                           (re_findall word_pat (lower (content a))))
                        (hd (top_keywords (re_findall word_pat (lower (content a)))))
         \<and> 2 \<le> length (re_findall word_pat (lower (content a)))
         \<and> (\<exists>r a'. analyze_content a = Inr (r, a') \<and> 2 \<le> word_count a'
               \<and> keywords_a a' = top_keywords (re_findall word_pat (lower (content a))))"
proof -
  let ?ws = "re_findall word_pat (lower (content a))"
  from assms have "hd (top_keywords ?ws) \<in> set (top_keywords ?ws)"
    by simp
  then have c: "1 < count_list (filter (\<lambda>word. word \<notin> set stop_words \<and> length word > 2) ?ws)
                     (hd (top_keywords ?ws))"
    by (rule top_keywords_count)
  have l: "2 \<le> length ?ws"
    using assms by (rule top_keywords_words)
  from analyze_content_total [of a] l c show ?thesis
    by auto
qed

lemma cat_keywords: "top_keywords (re_findall word_pat (lower ''cat cat'')) = [''cat'']"
  by code_simp

theorem keywords_imply_words_witness:
  "top_keywords (re_findall word_pat
      (lower (content ((init ''a.md'')\<lparr>content := ''cat cat''\<rparr>)))) \<noteq> []
   \<and> 2 \<le> length (re_findall word_pat
              (lower (content ((init ''a.md'')\<lparr>content := ''cat cat''\<rparr>))))
   \<and> (\<exists>r a'. analyze_content ((init ''a.md'')\<lparr>content := ''cat cat''\<rparr>) = Inr (r, a')
          \<and> 2 \<le> word_count a')"
  using keywords_imply_words [of "(init ''a.md'')\<lparr>content := ''cat cat''\<rparr>"]
  by (auto simp: cat_keywords)

section \<open>Score ranges\<close>

lemma title_score_range: "0 \<le> score_t (analyze_title a) \<and> score_t (analyze_title a) \<le> 100"
  by (simp add: analyze_title_def Let_def)

lemma structure_score_range:
  "0 \<le> score_s (analyze_structure a) \<and> score_s (analyze_structure a) \<le> 100"
  by (simp add: analyze_structure_def Let_def)

lemma round1_range:
  assumes "0 \<le> s" and "s \<le> 300"
  shows "0 \<le> round1 (rat_of_int s / 3) \<and> round1 (rat_of_int s / 3) \<le> 100"
proof -
  define k where "k = (10 * s + 1) div 3"
  have k: "0 \<le> k" "k \<le> 1000"
    using assms unfolding k_def by presburger+
  have "rat_of_int k \<le> rat_of_int 1000"
    using k(2) by (simp only: of_int_le_iff)
  then have "0 \<le> rat_of_int k" and "rat_of_int k \<le> 1000"
    using k(1) by simp_all
  then show ?thesis
    by (simp add: round1_third k_def)
qed

lemma run_analysis_text:
  assumes "load_content (FileText doc) (init path) = (True, [], a0)"
    and "analyze_content a0 = Inr (rc, a1)"
  shows "run_analysis (FileText doc) (init path) =
     Inr ([], Some \<lparr>title_analysis = analyze_title a0, content_analysis = rc,
                     structure_analysis = analyze_structure a1,
                     meta_description = generate_meta_description a1,
                     overall_score = round1 (rat_of_int (score_t (analyze_title a0) + score_c rc
                                               + score_s (analyze_structure a1)) / 3)\<rparr>,
          a1\<lparr>analysis_results :=
               Some \<lparr>title_analysis = analyze_title a0, content_analysis = rc,
                     structure_analysis = analyze_structure a1,
                     meta_description = generate_meta_description a1,
                     overall_score = round1 (rat_of_int (score_t (analyze_title a0) + score_c rc
                                               + score_s (analyze_structure a1)) / 3)\<rparr>\<rparr>)"
  using assms by (simp add: run_analysis_def Let_def add.assoc)

text \<open>
  Claim C2: for every document the analysis returns a result; each of the title, content and
  structure scores lies in [0, 100]; the overall score is the mean of exactly these three,
  rounded to one decimal and not clamped otherwise, and lies in [0, 100] as well.
\<close>

theorem scores_in_range:
  "\<exists>r a. run_analysis (FileText doc) (init path) = Inr ([], Some r, a)
     \<and> 0 \<le> score_t (title_analysis r) \<and> score_t (title_analysis r) \<le> 100
     \<and> 0 \<le> score_c (content_analysis r) \<and> score_c (content_analysis r) \<le> 100
     \<and> 0 \<le> score_s (structure_analysis r) \<and> score_s (structure_analysis r) \<le> 100
     \<and> overall_score r =
         round1 (rat_of_int (score_t (title_analysis r) + score_c (content_analysis r)
                               + score_s (structure_analysis r)) / 3)
     \<and> 0 \<le> overall_score r \<and> overall_score r \<le> 100"
proof -
  obtain a0 where ld: "load_content (FileText doc) (init path) = (True, [], a0)"
    by (simp add: load_text)
  obtain rc a1 where ac: "analyze_content a0 = Inr (rc, a1)"
    and c: "0 \<le> score_c rc" "score_c rc \<le> 100"
    using analyze_content_total [of a0] by blast
  define t where "t = score_t (analyze_title a0)"
  define s where "s = score_s (analyze_structure a1)"
  have t: "0 \<le> t" "t \<le> 100" and s: "0 \<le> s" "s \<le> 100"
    using title_score_range [of a0] structure_score_range [of a1] by (simp_all add: t_def s_def)
  have "0 \<le> t + score_c rc + s" and "t + score_c rc + s \<le> 300"
    using t c s by linarith+
  then have rng: "0 \<le> round1 (rat_of_int (t + score_c rc + s) / 3)"
       "round1 (rat_of_int (t + score_c rc + s) / 3) \<le> 100"
    using round1_range by blast+
  note run = run_analysis_text [OF ld ac, folded t_def s_def]
  show ?thesis
    unfolding run using t c s rng by (simp add: t_def s_def)
qed

section \<open>The empty file\<close>

lemma empty_words: "re_findall word_pat (lower []) = []"
  by code_simp
lemma empty_keywords: "top_keywords [] = []"
  by code_simp
lemma empty_headings: "re_findall subheading_pat [] = []"
  by code_simp
lemma empty_lists: "re_findall list_pat [] = []"
  by code_simp
lemma empty_links: "re_findall link_pat [] = []"
  by code_simp

lemma empty_content:
  "content a = [] \<Longrightarrow> analyze_content a =
     Inr (\<lparr>score_c = 60, word_count_c = 0, keywords_c = [],
           issues_c = [''Content too short (< 300 words)''],
           suggestions_c = [''Aim for 300-1500 words'', ''Use primary keyword naturally'',
                            ''Include related keywords'']\<rparr>,
          a\<lparr>word_count := 0, keywords_a := []\<rparr>)"
  by (simp add: analyze_content_def density_check_def empty_words empty_keywords Let_def)

lemma empty_structure:
  "content a = [] \<Longrightarrow> score_s (analyze_structure a) = 65 \<and> headings_count (analyze_structure a) = 0"
  by (simp add: analyze_structure_def empty_headings empty_lists empty_links Let_def)

lemma print_title_no_suggestions:
  "title a = [] \<Longrightarrow> suggestions_t ta = None \<Longrightarrow>
   snd (print_title_section a ta) = Some (KeyError ''suggestions'')"
  by (simp add: print_title_section_def Let_def)

lemma print_report_no_suggestions:
  "title a = [] \<Longrightarrow> analysis_results a = Some r \<Longrightarrow> suggestions_t (title_analysis r) = None \<Longrightarrow>
   snd (print_report a) = Some (KeyError ''suggestions'')"
  using print_title_no_suggestions [of a "title_analysis r"]
  by (auto simp: print_report_def Let_def split: prod.splits option.splits)

lemma round1_125: "round1 (125 / 3) = 417 / 10"
  using round1_third [of 125] by simp

text \<open>
  Claim C1 says that all logic after loading is total and that an empty file yields a printed
  report and exit code 0. On the empty file the analysis itself succeeds (title score 0, word
  count 0, no keywords, no density check, overall 41.7), but \<open>print_report\<close> then subscripts
  the title result with \<open>'suggestions'\<close>, a key that \<open>analyze_title\<close> leaves out when there
  is no title: \<open>KeyError\<close> escapes and the exit code is 1.
\<close>

theorem empty_file_report_raises:
  "\<exists>r a out. run_analysis (FileText []) (init path) = Inr ([], Some r, a)
     \<and> score_t (title_analysis r) = 0
     \<and> word_count_c (content_analysis r) = 0
     \<and> keywords_c (content_analysis r) = []
     \<and> issues_c (content_analysis r) = [''Content too short (< 300 words)'']
     \<and> score_c (content_analysis r) = 60
     \<and> score_s (structure_analysis r) = 65
     \<and> overall_score r = 417 / 10
     \<and> print_report a = (out, Some (KeyError ''suggestions''))
     \<and> main (\<lambda>p. FileText []) [prog, path] = (out, 1, Some (KeyError ''suggestions''))"
proof -
  define a0 where "a0 = init path"
  have c0: "content a0 = []" and t0: "title a0 = []"
    by (simp_all add: a0_def init_def)
  have ld: "load_content (FileText []) (init path) = (True, [], a0)"
    by (simp add: load_text search_title_empty clean_markdown_empty a0_def init_def)
  obtain r a where run: "run_analysis (FileText []) (init path) = Inr ([], Some r, a)"
    and ta: "title_analysis r = analyze_title a0"
    and ca: "content_analysis r = fst (projr (analyze_content a0))"
    and sa: "score_s (structure_analysis r) = 65"
    and ov: "overall_score r = 417 / 10"
    and ar: "analysis_results a = Some r" and ti: "title a = []"
    using empty_structure [of "a0\<lparr>word_count := 0, keywords_a := []\<rparr>"]
    by (simp add: run_analysis_def ld empty_content [OF c0] c0 t0 analyze_title_def Let_def round1_125)
  have st: "suggestions_t (title_analysis r) = None" "score_t (title_analysis r) = 0"
    by (simp_all add: ta analyze_title_def t0)
  obtain out where pr: "print_report a = (out, Some (KeyError ''suggestions''))"
    using print_report_no_suggestions [OF ti ar st(1)] by (cases "print_report a") auto
  have "main (\<lambda>p. FileText []) [prog, path] = (out, 1, Some (KeyError ''suggestions''))"
    by (simp add: main_def run pr)
  then show ?thesis
    using run st pr sa ov by (simp add: ca empty_content [OF c0])
qed



section \<open>Facts about the matcher\<close>

lemma first_some_SomeD: "first_some f xs = Some y \<Longrightarrow> \<exists>x\<in>set xs. f x = Some y"
  by (induction xs) (auto split: option.splits)

lemma first_some_None_iff: "first_some f xs = None \<longleftrightarrow> (\<forall>x\<in>set xs. f x = None)"
  by (induction xs) (auto split: option.splits)

lemma set_counts: "set (counts q lo n) = {lo..n}"
  by (cases q) (auto simp: counts_def)


lemma run_length_le: "run_length cls hi rest \<le> length (takeWhile cls rest)"
  by (simp add: run_length_def Let_def split: option.splits)

lemma run_length_le_length: "run_length cls hi rest \<le> length rest"
  using run_length_le [of cls hi rest] length_takeWhile_le [of cls rest] by linarith

lemma match_here_Rep_SomeD:
  assumes "match_here (Rep cls lo hi q # p) prev rest gs g n = Some res"
  shows "\<exists>k. lo \<le> k \<and> k \<le> run_length cls hi rest \<and>
             match_here p (prev_after prev rest k) (drop k rest) gs g (n + k) = Some res"
proof -
  from assms have "first_some
      (\<lambda>k. match_here p (prev_after prev rest k) (drop k rest) gs g (n + k))
      (counts q lo (run_length cls hi rest)) = Some res"
    by simp
  from first_some_SomeD [OF this] show ?thesis
    by (auto simp: set_counts)
qed

lemma match_here_Rep_SomeI:
  assumes "lo \<le> k" and "k \<le> run_length cls hi rest"
    and "match_here p (prev_after prev rest k) (drop k rest) gs g (n + k) \<noteq> None"
  shows "match_here (Rep cls lo hi q # p) prev rest gs g n \<noteq> None"
proof
  assume "match_here (Rep cls lo hi q # p) prev rest gs g n = None"
  then have "\<forall>x\<in>{lo..run_length cls hi rest}.
      match_here p (prev_after prev rest x) (drop x rest) gs g (n + x) = None"
    by (simp add: first_some_None_iff set_counts)
  with assms show False
    by auto
qed

text \<open>A match consumes at least the pattern's minimum and at most the text that is left.\<close>

lemma match_here_consumed:
  "match_here p prev rest gs g n = Some (g', n') \<Longrightarrow>
   n + min_len p \<le> n' \<and> n' \<le> n + length rest"
proof (induction p arbitrary: prev rest gs g n)
  case Nil
  then show ?case by (simp add: min_len_def)
next
  case (Cons it p)
  show ?case
  proof (cases it)
    case (Lit s)
    with Cons.prems have pre: "prefix s rest"
      and m: "match_here p (prev_after prev rest (length s)) (drop (length s) rest) gs g
                (n + length s) = Some (g', n')"
      by (auto split: if_splits)
    from pre have "length s \<le> length rest"
      by (rule prefix_length_le)
    with Cons.IH [OF m] Lit show ?thesis
      by (simp add: min_len_def)
  next
    case (Rep cls lo hi q)
    with Cons.prems obtain k where k: "lo \<le> k" "k \<le> run_length cls hi rest"
      and m: "match_here p (prev_after prev rest k) (drop k rest) gs g (n + k) = Some (g', n')"
      using match_here_Rep_SomeD by blast
    from k(2) have "k \<le> length rest"
      using run_length_le_length [of cls hi rest] by linarith
    with Cons.IH [OF m] k(1) Rep show ?thesis
      by (simp add: min_len_def)
  qed (use Cons in \<open>auto simp: min_len_def split: if_splits\<close>)
qed

lemma match_at_consumed:
  assumes "match_at p prev rest = Some (cap, k)"
  shows "min_len p \<le> k" and "k \<le> length rest"
  using assms match_here_consumed [of p prev rest 0 "(0, 0)" 0]
  by (auto simp: match_at_def split: option.splits)

lemma program_patterns_nonempty:
  "0 < min_len title_pat" "0 < min_len header_pat" "0 < min_len link_pat"
  "0 < min_len image_pat" "0 < min_len codeblock_pat" "0 < min_len inline_pat"
  "0 < min_len bold_pat" "0 < min_len italic_pat" "0 < min_len list_pat"
  "0 < min_len word_pat" "0 < min_len subheading_pat" "0 < min_len ws_pat"
  by (simp_all add: min_len_def title_pat_def header_pat_def link_pat_def image_pat_def
        codeblock_pat_def inline_pat_def bold_pat_def italic_pat_def list_pat_def word_pat_def
        subheading_pat_def ws_pat_def)

text \<open>Where nothing matches, \<open>re.sub\<close> returns its input.\<close>

lemma sub_from_no_match:
  "search_from p prev rest = None \<Longrightarrow> sub_from p r prev rest = rest"
proof (induction rest arbitrary: prev)
  case Nil
  then show ?case by (subst sub_from.simps) (auto split: option.splits)
next
  case (Cons c cs)
  from Cons.prems have m: "match_at p prev (c # cs) = None"
    and s: "search_from p (Some c) cs = None"
    by (auto split: option.splits)
  show ?case
    by (subst sub_from.simps) (simp add: m Cons.IH [OF s])
qed

lemma re_sub_no_match: "re_search p t = None \<Longrightarrow> re_sub p r t = t"
  by (simp add: re_sub_def re_search_def sub_from_no_match)

lemma strip_trimmed:
  "strip s = [] \<or> (\<not> is_space (hd (strip s)) \<and> \<not> is_space (last (strip s)))"
proof (cases "strip s = []")
  case True
  then show ?thesis by simp
next
  case False
  define t where "t = dropWhile is_space s"
  define u where "u = dropWhile is_space (rev t)"
  have st: "strip s = rev u"
    by (simp add: strip_def t_def u_def)
  with False have u: "u \<noteq> []" by simp
  then have t: "t \<noteq> []" by (auto simp: u_def)
  from u have hu: "\<not> is_space (hd u)"
    unfolding u_def by (rule hd_dropWhile)
  from t have ht: "\<not> is_space (hd t)"
    unfolding t_def by (rule hd_dropWhile)
  have "takeWhile is_space (rev t) @ u = rev t"
    by (simp add: u_def)
  then have "last u = last (rev t)"
    using u by (metis last_appendR)
  then have "last u = hd t"
    using t by (simp add: last_rev)
  with u hu ht show ?thesis
    by (simp add: st hd_rev last_rev)
qed

lemma strip_id:
  assumes "y = [] \<or> (\<not> is_space (hd y) \<and> \<not> is_space (last y))"
  shows "strip y = y"
proof (cases "y = []")
  case True
  then show ?thesis by (simp add: strip_def)
next
  case False
  with assms have h: "\<not> is_space (hd y)" and l: "\<not> is_space (last y)"
    by simp_all
  from h False have 1: "dropWhile is_space y = y"
    by (simp add: dropWhile_eq_self_iff)
  from l False have 2: "dropWhile is_space (rev y) = rev y"
    by (simp add: dropWhile_eq_self_iff hd_rev)
  show ?thesis by (simp add: strip_def 1 2)
qed

lemma strip_strip: "strip (strip s) = strip s"
  using strip_trimmed [of s] by (rule strip_id)

lemma plain_hello: "plain_text ''  hello world ''"
  unfolding plain_text_def by code_simp
lemma strip_hello: "strip ''  hello world '' = ''hello world''"
  by code_simp
lemma plain_hello': "plain_text ''hello world''"
  unfolding plain_text_def by code_simp

section \<open>Cleaning plain text\<close>

text \<open>
  Claim C8, as the code has it: for a text in which none of the cleaning patterns matches,
  cleaning returns the text with its leading and trailing whitespace trimmed; cleaning such a
  text twice gives the same as cleaning it once when the trimmed text is again free of
  matches.
\<close>

theorem clean_plain_text:
  assumes "plain_text t"
  shows "clean_markdown t = strip t
         \<and> (plain_text (strip t) \<longrightarrow> clean_markdown (clean_markdown t) = clean_markdown t)"
proof -
  have c: "clean_markdown t = strip t" if "plain_text t" for t
    using that by (simp add: clean_markdown_def plain_text_def re_sub_no_match Let_def)
  from c [OF assms] c [of "strip t"] show ?thesis
    by (simp add: strip_strip)
qed

theorem clean_plain_text_witness:
  "plain_text ''  hello world '' \<and> plain_text (strip ''  hello world '')
   \<and> clean_markdown ''  hello world '' = ''hello world''
   \<and> clean_markdown (clean_markdown ''  hello world '') = clean_markdown ''  hello world ''"
  using clean_plain_text [OF plain_hello] plain_hello plain_hello'
  unfolding strip_hello by blast

text \<open>
  Without the condition on the trimmed text the cleaner is not idempotent on plain text: in
  \<open>    # A\<close> no pattern matches, since the hash is not at the start of a line; trimming
  puts it there, and a second cleaning removes the line.
\<close>

theorem clean_not_idempotent_counterexample:
  "plain_text ''    # A'' \<and>
   clean_markdown ''    # A'' = strip ''    # A'' \<and>
   clean_markdown (clean_markdown ''    # A'') \<noteq> clean_markdown ''    # A''"
  unfolding plain_text_def by code_simp

section \<open>The meta description\<close>










section \<open>Headings after cleaning\<close>

lemma match_here_Bol_SomeD:
  "match_here (Bol # p) prev rest gs g n = Some res \<Longrightarrow>
   at_bol prev \<and> match_here p prev rest gs g n = Some res"
  by (simp split: if_splits)

lemma match_here_Eol_SomeD:
  "match_here (Eol # p) prev rest gs g n = Some res \<Longrightarrow>
   at_eol rest \<and> match_here p prev rest gs g n = Some res"
  by (simp split: if_splits)

lemma match_here_Bol_SomeI:
  "at_bol prev \<Longrightarrow> match_here p prev rest gs g n \<noteq> None \<Longrightarrow>
   match_here (Bol # p) prev rest gs g n \<noteq> None"
  by simp

lemma match_here_Eol_end: "at_eol rest \<Longrightarrow> match_here [Eol] prev rest gs g n \<noteq> None"
  by simp

lemma take_takeWhile:
  assumes "k \<le> length (takeWhile P xs)"
  shows "take k xs = take k (takeWhile P xs)"
proof -
  have "take k xs = take k (takeWhile P xs @ dropWhile P xs)"
    by simp
  also have "\<dots> = take k (takeWhile P xs)"
    using assms by (simp del: takeWhile_dropWhile_id)
  finally show ?thesis .
qed

lemma run_prefix:
  assumes "k \<le> run_length cls hi rest"
  shows "\<forall>x\<in>set (take k rest). cls x"
proof -
  from assms have "k \<le> length (takeWhile cls rest)"
    using run_length_le [of cls hi rest] by linarith
  then have "take k rest = take k (takeWhile cls rest)"
    by (rule take_takeWhile)
  then have "set (take k rest) \<subseteq> set (takeWhile cls rest)"
    by (simp add: set_take_subset)
  then show ?thesis
    by (auto dest: set_takeWhileD)
qed

lemma run_positive:
  assumes "1 \<le> k" and "k \<le> run_length cls hi rest"
  shows "\<exists>c cs. rest = c # cs \<and> cls c"
proof (cases rest)
  case Nil
  with assms show ?thesis by (simp add: run_length_def split: option.splits)
next
  case (Cons c cs)
  from assms have "1 \<le> length (takeWhile cls rest)"
    using run_length_le [of cls hi rest] by linarith
  with Cons show ?thesis by (cases "cls c") auto
qed

lemma takeWhile_hashes:
  "w \<noteq> CHR ''#'' \<Longrightarrow>
   takeWhile (\<lambda>c. c = CHR ''#'') (replicate j CHR ''#'' @ w # xs) = replicate j CHR ''#''"
  by (induction j) auto

lemma run_length_hashes:
  assumes "w \<noteq> CHR ''#''" and "j \<le> 6"
  shows "run_length (\<lambda>c. c = CHR ''#'') (Some 6) (replicate j CHR ''#'' @ w # xs) = j"
  using assms by (simp add: run_length_def takeWhile_hashes)

lemma space_not_hash: "is_space w \<Longrightarrow> w \<noteq> CHR ''#''"
  by (auto simp: is_space_def)

lemma NL_not_hash: "NL \<noteq> CHR ''#''"
  by (simp add: NL_def)

text \<open>What a match of the heading pattern of \<open>_clean_markdown\<close> looks like.\<close>

lemma header_match_sound:
  assumes "match_at header_pat prev rest = Some (cap, k)"
  shows "at_bol prev \<and> (\<exists>cs. rest = CHR ''#'' # cs) \<and> at_eol (drop k rest)
         \<and> 0 < k \<and> k \<le> length rest"
proof -
  from assms obtain g where mh: "match_here header_pat prev rest 0 (0, 0) 0 = Some (g, k)"
    by (auto simp: match_at_def split: option.splits)
  from match_here_Bol_SomeD [OF mh [unfolded header_pat_def]]
  have b: "at_bol prev"
    and 1: "match_here [Rep (\<lambda>c. c = CHR ''#'') 1 (Some 6) Greedy, Rep is_space 1 None Greedy,
                        Rep is_dot 0 None Greedy, Eol] prev rest 0 (0, 0) 0 = Some (g, k)"
    by simp_all
  from match_here_Rep_SomeD [OF 1] obtain k1 where k1: "1 \<le> k1"
      "k1 \<le> run_length (\<lambda>c. c = CHR ''#'') (Some 6) rest"
    and 2: "match_here [Rep is_space 1 None Greedy, Rep is_dot 0 None Greedy, Eol]
              (prev_after prev rest k1) (drop k1 rest) 0 (0, 0) (0 + k1) = Some (g, k)"
    by blast
  from match_here_Rep_SomeD [OF 2] obtain k2 where
    3: "match_here [Rep is_dot 0 None Greedy, Eol]
              (prev_after (prev_after prev rest k1) (drop k1 rest) k2) (drop k2 (drop k1 rest))
              0 (0, 0) (0 + k1 + k2) = Some (g, k)"
    by blast
  from match_here_Rep_SomeD [OF 3] obtain k3 where
    4: "match_here [Eol]
              (prev_after (prev_after (prev_after prev rest k1) (drop k1 rest) k2)
                 (drop k2 (drop k1 rest)) k3)
              (drop k3 (drop k2 (drop k1 rest))) 0 (0, 0) (0 + k1 + k2 + k3) = Some (g, k)"
    by blast
  from match_here_Eol_SomeD [OF 4] have e: "at_eol (drop k3 (drop k2 (drop k1 rest)))"
    and k: "k = k1 + k2 + k3"
    by auto
  from e k have eol: "at_eol (drop k rest)"
    by (simp add: add.commute add.left_commute)
  from run_positive [OF k1] have hd: "\<exists>cs. rest = CHR ''#'' # cs"
    by auto
  from match_at_consumed [OF assms] have "0 < k" and "k \<le> length rest"
    using program_patterns_nonempty(2) by simp_all
  with b hd eol show ?thesis
    by simp
qed

text \<open>At the start of a line, one to six hashes and a blank make the heading pattern match.\<close>

lemma header_match_fires:
  assumes "at_bol prev" and "1 \<le> j" and "j \<le> 6" and "is_space w"
  shows "match_at header_pat prev (replicate j CHR ''#'' @ w # xs) \<noteq> None"
proof -
  define rest where "rest = replicate j CHR ''#'' @ w # xs"
  define k2 where "k2 = length (takeWhile is_space (w # xs))"
  define r2 where "r2 = drop k2 (w # xs)"
  define k3 where "k3 = length (takeWhile is_dot r2)"
  have d1: "drop j rest = w # xs"
    by (simp add: rest_def)
  have rl: "run_length (\<lambda>c. c = CHR ''#'') (Some 6) rest = j"
    unfolding rest_def using space_not_hash [OF assms(4)] assms(3) by (rule run_length_hashes)
  have k2: "1 \<le> k2"
    using assms(4) by (simp add: k2_def)
  have k2r: "k2 \<le> run_length is_space None (w # xs)"
    by (simp add: run_length_def k2_def)
  have k3r: "k3 \<le> run_length is_dot None r2"
    by (simp add: run_length_def k3_def)
  have "drop k3 r2 = dropWhile is_dot r2"
    unfolding k3_def by (rule dropWhile_eq_drop [symmetric])
  then have eol: "at_eol (drop k3 r2)"
    using hd_dropWhile [of is_dot r2]
    by (cases "dropWhile is_dot r2") (auto simp: at_eol_def is_dot_def)
  have 4: "match_here [Eol] p' (drop k3 r2) gs g n \<noteq> None" for p' gs g n
    using eol by (rule match_here_Eol_end)
  have 3: "match_here [Rep is_dot 0 None Greedy, Eol] p' r2 gs g n \<noteq> None" for p' gs g n
    using _ k3r 4 by (rule match_here_Rep_SomeI) simp
  have 2: "match_here [Rep is_space 1 None Greedy, Rep is_dot 0 None Greedy, Eol]
             p' (w # xs) gs g n \<noteq> None" for p' gs g n
    using k2 k2r 3 [unfolded r2_def] by (rule match_here_Rep_SomeI)
  have 1: "match_here [Rep (\<lambda>c. c = CHR ''#'') 1 (Some 6) Greedy, Rep is_space 1 None Greedy,
                       Rep is_dot 0 None Greedy, Eol] prev rest 0 (0, 0) 0 \<noteq> None"
    using assms(2) _ 2 [folded d1] by (rule match_here_Rep_SomeI) (simp add: rl)
  have "match_here header_pat prev rest 0 (0, 0) 0 \<noteq> None"
    unfolding header_pat_def by (rule match_here_Bol_SomeI [OF assms(1) 1])
  then show ?thesis
    by (auto simp: match_at_def rest_def split: option.splits)
qed

text \<open>What a match of the sub-heading pattern of \<open>analyze_structure\<close> looks like.\<close>

lemma subheading_match_sound:
  assumes "match_at subheading_pat prev out = Some (cap, k)"
  shows "at_bol prev \<and>
         (\<exists>j w xs. out = replicate j CHR ''#'' @ w # xs \<and> 1 \<le> j \<and> j \<le> 6 \<and> is_space w)"
proof -
  from assms obtain g where mh: "match_here subheading_pat prev out 0 (0, 0) 0 = Some (g, k)"
    by (auto simp: match_at_def split: option.splits)
  from match_here_Bol_SomeD [OF mh [unfolded subheading_pat_def]]
  have b: "at_bol prev"
    and 1: "match_here [Rep (\<lambda>c. c = CHR ''#'') 2 (Some 6) Greedy, Rep is_space 1 None Greedy,
                        Rep is_dot 1 None Greedy] prev out 0 (0, 0) 0 = Some (g, k)"
    by simp_all
  from match_here_Rep_SomeD [OF 1] obtain k1 where k1: "2 \<le> k1"
      "k1 \<le> run_length (\<lambda>c. c = CHR ''#'') (Some 6) out"
    and 2: "match_here [Rep is_space 1 None Greedy, Rep is_dot 1 None Greedy]
              (prev_after prev out k1) (drop k1 out) 0 (0, 0) (0 + k1) = Some (g, k)"
    by blast
  from match_here_Rep_SomeD [OF 2] obtain k2 where k2: "1 \<le> k2"
      "k2 \<le> run_length is_space None (drop k1 out)"
    by blast
  from run_positive [OF k2] obtain w xs where d: "drop k1 out = w # xs" and w: "is_space w"
    by blast
  from k1(2) have k6: "k1 \<le> 6"
    by (simp add: run_length_def)
  from k1(2) have "k1 \<le> length out"
    using run_length_le_length [of "\<lambda>c. c = CHR ''#''" "Some 6" out] by linarith
  then have len: "length (take k1 out) = k1"
    by simp
  from run_prefix [OF k1(2)] have "\<forall>x\<in>set (take k1 out). x = CHR ''#''"
    by simp
  then have "replicate (length (take k1 out)) CHR ''#'' = take k1 out"
    by (intro replicate_length_same) simp
  then have t: "take k1 out = replicate k1 CHR ''#''"
    by (simp only: len)
  have "out = take k1 out @ drop k1 out"
    by simp
  then have "out = replicate k1 CHR ''#'' @ w # xs"
    by (simp only: t d)
  with b k1(1) k6 w show ?thesis
    by (intro conjI exI [of _ k1] exI [of _ w] exI [of _ xs]) simp_all
qed


lemma hash_not_bol: "\<not> at_bol (Some CHR ''#'')"
  by (simp add: at_bol_def NL_def)

lemma header_no_match_mid: "\<not> at_bol prev \<Longrightarrow> match_at header_pat prev rest = None"
  using header_match_sound [of prev rest] by (cases "match_at header_pat prev rest") auto

lemma header_no_match_other:
  "\<forall>cs. rest \<noteq> CHR ''#'' # cs \<Longrightarrow> match_at header_pat prev rest = None"
  using header_match_sound [of prev rest] by (cases "match_at header_pat prev rest") auto

lemma sub_header_copy:
  "match_at header_pat prev (c # cs) = None \<Longrightarrow>
   sub_from header_pat r prev (c # cs) = c # sub_from header_pat r (Some c) cs"
  by (subst sub_from.simps) simp

lemma sub_header_nil: "sub_from header_pat r prev [] = []"
  by (subst sub_from.simps) (simp add: header_no_match_other)

lemma sub_header_skip:
  assumes "match_at header_pat prev rest = Some (cap, k)"
  shows "sub_from header_pat (Const []) prev rest =
         sub_from header_pat (Const []) (prev_after prev rest k) (drop k rest)"
  using header_match_sound [OF assms] by (subst sub_from.simps) (simp add: assms)

lemma sub_header_eol:
  assumes "at_eol rest"
  shows "sub_from header_pat (Const []) prev rest \<noteq> CHR ''#'' # out"
proof (cases rest)
  case Nil
  then show ?thesis by (simp add: sub_header_nil)
next
  case (Cons c cs)
  with assms have c: "c = NL" by (simp add: at_eol_def)
  then have "match_at header_pat prev (c # cs) = None"
    by (intro header_no_match_other) (simp add: NL_def)
  from sub_header_copy [OF this] show ?thesis
    by (simp add: Cons c NL_def)
qed

lemma sub_header_hash:
  assumes "sub_from header_pat (Const []) prev rest = CHR ''#'' # out"
  shows "\<exists>cs. rest = CHR ''#'' # cs \<and> match_at header_pat prev rest = None
              \<and> out = sub_from header_pat (Const []) (Some CHR ''#'') cs"
proof (cases "match_at header_pat prev rest")
  case None
  show ?thesis
  proof (cases rest)
    case Nil
    with assms show ?thesis by (simp add: sub_header_nil)
  next
    case (Cons c cs)
    from sub_header_copy [OF None [unfolded Cons], of "Const []"] assms Cons None show ?thesis
      by auto
  qed
next
  case (Some x)
  obtain cap k where x: "x = (cap, k)" by (cases x)
  from header_match_sound [OF Some [unfolded x]] have "at_eol (drop k rest)"
    by simp
  then have ne: "sub_from header_pat (Const []) (prev_after prev rest k) (drop k rest)
      \<noteq> CHR ''#'' # out"
    by (rule sub_header_eol)
  have "sub_from header_pat (Const []) (prev_after prev rest k) (drop k rest) = CHR ''#'' # out"
    using sub_header_skip [OF Some [unfolded x]] assms by simp
  with ne show ?thesis
    by blast
qed

text \<open>Hashes that reach the output of the heading step were hashes of the input, in a row.\<close>

lemma sub_header_run:
  assumes "sub_from header_pat (Const []) prev rest = replicate j CHR ''#'' @ w # xs"
    and "1 \<le> j" and "w \<noteq> CHR ''#''"
  shows "\<exists>ys. rest = replicate j CHR ''#'' @ w # ys"
  using assms
proof (induction j arbitrary: prev rest)
  case 0
  then show ?case by simp
next
  case (Suc j)
  from Suc.prems(1) have "sub_from header_pat (Const []) prev rest =
      CHR ''#'' # (replicate j CHR ''#'' @ w # xs)"
    by simp
  from sub_header_hash [OF this] obtain cs where r: "rest = CHR ''#'' # cs"
    and o: "sub_from header_pat (Const []) (Some CHR ''#'') cs = replicate j CHR ''#'' @ w # xs"
    by auto
  show ?case
  proof (cases j)
    case 0
    with o have o': "sub_from header_pat (Const []) (Some CHR ''#'') cs = w # xs"
      by simp
    show ?thesis
    proof (cases cs)
      case Nil
      with o' show ?thesis by (simp add: sub_header_nil)
    next
      case (Cons c' cs')
      have "match_at header_pat (Some CHR ''#'') (c' # cs') = None"
        using hash_not_bol by (rule header_no_match_mid)
      from sub_header_copy [OF this] o' Cons have "c' = w"
        by simp
      with r Cons 0 show ?thesis by simp
    qed
  next
    case (Suc j')
    then have "1 \<le> j" by simp
    from Suc.IH [OF o this Suc.prems(3)] r show ?thesis
      by auto
  qed
qed

lemma subheading_no_match_nil: "match_at subheading_pat prev [] = None"
  using subheading_match_sound [of prev "[]"] by (cases "match_at subheading_pat prev []") auto

text \<open>
  The scan of the heading step, with the character before the position in the input and in
  the output: a line start of the output is a line start of the input, or the input position
  is at the end of a line (right after a removed heading).
\<close>

lemma findall_sub_header:
  "at_bol prev_out \<longrightarrow> at_bol prev_in \<or> at_eol rest \<Longrightarrow>
   findall_from subheading_pat prev_out (sub_from header_pat (Const []) prev_in rest) = []"
proof (induction rest arbitrary: prev_in prev_out rule: length_induct)
  case (1 rest)
  note IH = "1.IH" [rule_format]
  show ?case
  proof (cases "match_at header_pat prev_in rest")
    case (Some x)
    obtain cap k where x: "x = (cap, k)" by (cases x)
    note m = Some [unfolded x]
    from header_match_sound [OF m] have e: "at_eol (drop k rest)"
      and "0 < k" and "k \<le> length rest"
      by simp_all
    then have "length (drop k rest) < length rest"
      by simp
    from IH [OF this, of prev_out "prev_after prev_in rest k"] e
    have "findall_from subheading_pat prev_out
            (sub_from header_pat (Const []) (prev_after prev_in rest k) (drop k rest)) = []"
      by simp
    then show ?thesis
      by (simp add: sub_header_skip [OF m])
  next
    case None
    show ?thesis
    proof (cases rest)
      case Nil
      show ?thesis
        unfolding Nil sub_header_nil
        by (subst findall_from.simps) (simp add: subheading_no_match_nil)
    next
      case (Cons c cs)
      define out' where "out' = sub_from header_pat (Const []) (Some c) cs"
      have out: "sub_from header_pat (Const []) prev_in rest = c # out'"
        using sub_header_copy [OF None [unfolded Cons]] by (simp add: Cons out'_def)
      have nm: "match_at subheading_pat prev_out (c # out') = None"
      proof (rule ccontr)
        assume "match_at subheading_pat prev_out (c # out') \<noteq> None"
        then obtain cap k where "match_at subheading_pat prev_out (c # out') = Some (cap, k)"
          by auto
        from subheading_match_sound [OF this] obtain j w xs where b: "at_bol prev_out"
          and sh: "c # out' = replicate j CHR ''#'' @ w # xs" "1 \<le> j" "j \<le> 6" "is_space w"
          by blast
        from out sh(1) have "sub_from header_pat (Const []) prev_in rest =
            replicate j CHR ''#'' @ w # xs"
          by simp
        from sub_header_run [OF this sh(2) space_not_hash [OF sh(4)]]
        obtain ys where r: "rest = replicate j CHR ''#'' @ w # ys"
          by blast
        from sh(2) obtain j' where "j = Suc j'"
          by (cases j) auto
        with r have "\<not> at_eol rest"
          by (simp add: at_eol_def NL_def)
        with "1.prems" b have "at_bol prev_in"
          by simp
        from header_match_fires [OF this sh(2) sh(3) sh(4), of ys] None r show False
          by simp
      qed
      have "findall_from subheading_pat prev_out (c # out') =
            findall_from subheading_pat (Some c) out'"
        by (subst findall_from.simps) (simp add: nm)
      moreover have "findall_from subheading_pat (Some c) out' = []"
        unfolding out'_def by (rule IH) (simp_all add: Cons)
      ultimately show ?thesis
        by (simp add: out)
    qed
  qed
qed

lemma headings_count_eq:
  "headings_count (analyze_structure a) = length (re_findall subheading_pat (content a))"
  by (simp add: analyze_structure_def Let_def)

lemma indented_clean: "clean_markdown '' ## A'' = ''## A''"
  by code_simp

lemma indented_title: "re_search title_pat '' ## A'' = None"
  by code_simp

lemma indented_headings: "re_findall subheading_pat ''## A'' = [''## A'']"
  by code_simp

lemma match_at_cap_subset:
  "match_at p prev rest = Some (cap, k) \<Longrightarrow> set cap \<subseteq> set rest"
  by (auto simp: match_at_def split: option.splits dest!: in_set_takeD in_set_dropD)

lemma set_expand: "set cap \<subseteq> A \<Longrightarrow> r = Group1 \<or> r = Const [] \<Longrightarrow> set (expand r cap) \<subseteq> A"
  by auto

text \<open>A step that replaces a match by its group or by nothing adds no character.\<close>

lemma set_sub_from:
  assumes "r = Group1 \<or> r = Const []"
  shows "set (sub_from p r prev rest) \<subseteq> set rest"
proof (induction rest arbitrary: prev rule: length_induct)
  case (1 rest)
  note IH = "1.IH" [rule_format]
  have tail: "set (case rest of [] \<Rightarrow> [] | c # cs \<Rightarrow> c # sub_from p r (Some c) cs) \<subseteq> set rest"
  proof (cases rest)
    case Nil
    then show ?thesis by simp
  next
    case (Cons c cs)
    have "set (sub_from p r (Some c) cs) \<subseteq> set cs"
      by (rule IH) (simp add: Cons)
    then show ?thesis
      by (auto simp: Cons)
  qed
  show ?case
  proof (cases "match_at p prev rest")
    case None
    with tail show ?thesis
      by (subst sub_from.simps) simp
  next
    case (Some x)
    obtain cap k where x: "x = (cap, k)" by (cases x)
    from match_at_cap_subset [OF Some [unfolded x]] assms
    have e: "set (expand r cap) \<subseteq> set rest"
      by (rule set_expand)
    have eq: "sub_from p r prev rest =
        (if 0 < k \<and> k \<le> length rest
         then expand r cap @ sub_from p r (prev_after prev rest k) (drop k rest)
         else expand r cap @ (case rest of [] \<Rightarrow> [] | c # cs \<Rightarrow> c # sub_from p r (Some c) cs))"
      by (subst sub_from.simps) (simp add: Some x)
    show ?thesis
    proof (cases "0 < k \<and> k \<le> length rest")
      case True
      then have "length rest - k < length rest"
        by linarith
      then have "length (drop k rest) < length rest"
        by simp
      then have "set (sub_from p r (prev_after prev rest k) (drop k rest)) \<subseteq> set (drop k rest)"
        by (rule IH)
      also have "\<dots> \<subseteq> set rest"
        by (rule set_drop_subset)
      finally have "set (expand r cap @ sub_from p r (prev_after prev rest k) (drop k rest))
          \<subseteq> set rest"
        using e by simp
      then show ?thesis
        unfolding eq using True by (simp only: if_True simp_thms)
    next
      case False
      from e tail have "set (expand r cap @
          (case rest of [] \<Rightarrow> [] | c # cs \<Rightarrow> c # sub_from p r (Some c) cs)) \<subseteq> set rest"
        by simp
      then show ?thesis
        unfolding eq using False by (simp only: if_False simp_thms)
    qed
  qed
qed

lemma set_re_sub: "r = Group1 \<or> r = Const [] \<Longrightarrow> set (re_sub p r s) \<subseteq> set s"
  by (simp add: re_sub_def set_sub_from)

lemma set_strip: "set (strip s) \<subseteq> set s"
  by (auto simp: strip_def dest!: set_dropWhileD)

lemma clean_markdown_after_header:
  "set (clean_markdown doc) \<subseteq> set (re_sub header_pat (Const []) doc)"
proof -
  define t1 where "t1 = re_sub header_pat (Const []) doc"
  define t2 where "t2 = re_sub link_pat Group1 t1"
  define t3 where "t3 = re_sub image_pat (Const []) t2"
  define t4 where "t4 = re_sub codeblock_pat (Const []) t3"
  define t5 where "t5 = re_sub inline_pat Group1 t4"
  define t6 where "t6 = re_sub bold_pat Group1 t5"
  define t7 where "t7 = re_sub italic_pat Group1 t6"
  define t8 where "t8 = re_sub list_pat (Const []) t7"
  have "clean_markdown doc = strip t8"
    by (simp add: clean_markdown_def Let_def t1_def t2_def t3_def t4_def t5_def t6_def t7_def
          t8_def)
  then have "set (clean_markdown doc) \<subseteq> set t8"
    by (simp add: set_strip)
  also have "\<dots> \<subseteq> set t7" unfolding t8_def by (rule set_re_sub) simp
  also have "\<dots> \<subseteq> set t6" unfolding t7_def by (rule set_re_sub) simp
  also have "\<dots> \<subseteq> set t5" unfolding t6_def by (rule set_re_sub) simp
  also have "\<dots> \<subseteq> set t4" unfolding t5_def by (rule set_re_sub) simp
  also have "\<dots> \<subseteq> set t3" unfolding t4_def by (rule set_re_sub) simp
  also have "\<dots> \<subseteq> set t2" unfolding t3_def by (rule set_re_sub) simp
  also have "\<dots> \<subseteq> set t1" unfolding t2_def by (rule set_re_sub) simp
  finally show ?thesis
    by (simp add: t1_def)
qed

lemma findall_subheading_no_hash:
  "CHR ''#'' \<notin> set rest \<Longrightarrow> findall_from subheading_pat prev rest = []"
proof (induction rest arbitrary: prev)
  case Nil
  show ?case
    by (subst findall_from.simps) (simp add: subheading_no_match_nil)
next
  case (Cons c cs)
  have "match_at subheading_pat prev (c # cs) = None"
  proof (rule ccontr)
    assume "match_at subheading_pat prev (c # cs) \<noteq> None"
    then obtain cap k where "match_at subheading_pat prev (c # cs) = Some (cap, k)"
      by auto
    from subheading_match_sound [OF this] obtain j w xs
      where "c # cs = replicate j CHR ''#'' @ w # xs" and "1 \<le> j"
      by blast
    then have "CHR ''#'' \<in> set (c # cs)"
      by (cases j) auto
    with Cons.prems show False by simp
  qed
  moreover from Cons have "findall_from subheading_pat (Some c) cs = []"
    by simp
  ultimately show ?case
    by (subst findall_from.simps) simp
qed

lemma headed_after_header:
  "re_sub header_pat (Const []) ''# Guide\<newline>## Setup\<newline>text\<newline>### More\<newline>end'' =
     ''\<newline>\<newline>text\<newline>\<newline>end''"
  by code_simp

text \<open>
  Claim C3, as the code has it: for every document the heading step of the cleaning leaves no
  match of the sub-heading pattern, and when no hash character is left after that step, the
  structure analysis that \<open>run_analysis\<close> performs on the cleaned text reports
  \<open>headings_count = 0\<close>: the later steps and the trim add no character.
\<close>

theorem headings_zero_without_hashes:
  "re_findall subheading_pat (re_sub header_pat (Const []) doc) = []
   \<and> (CHR ''#'' \<notin> set (re_sub header_pat (Const []) doc) \<longrightarrow>
        (\<exists>r a. run_analysis (FileText doc) (init path) = Inr ([], Some r, a)
           \<and> content a = clean_markdown doc
           \<and> headings_count (structure_analysis r) = 0))"
proof -
  have 1: "re_findall subheading_pat (re_sub header_pat (Const []) doc) = []"
    unfolding re_findall_def re_sub_def by (rule findall_sub_header) simp
  have 2: "\<exists>r a. run_analysis (FileText doc) (init path) = Inr ([], Some r, a)
           \<and> content a = clean_markdown doc
           \<and> headings_count (structure_analysis r) = 0"
    if nh: "CHR ''#'' \<notin> set (re_sub header_pat (Const []) doc)"
  proof -
    obtain a0 where ld: "load_content (FileText doc) (init path) = (True, [], a0)"
      and c0: "content a0 = clean_markdown doc"
      by (simp add: load_text)
    obtain rc a1 where ac: "analyze_content a0 = Inr (rc, a1)"
      and c1: "content a1 = content a0"
      using analyze_content_total [of a0] by blast
    from nh clean_markdown_after_header [of doc] have "CHR ''#'' \<notin> set (content a1)"
      by (auto simp: c1 c0)
    then have "headings_count (analyze_structure a1) = 0"
      by (simp add: headings_count_eq re_findall_def findall_subheading_no_hash)
    then show ?thesis
      by (simp add: run_analysis_text [OF ld ac] c1 c0)
  qed
  from 1 2 show ?thesis
    by blast
qed

theorem headings_zero_without_hashes_witness:
  "CHR ''#'' \<notin> set (re_sub header_pat (Const [])
       ''# Guide\<newline>## Setup\<newline>text\<newline>### More\<newline>end'')
   \<and> (\<exists>r a. run_analysis (FileText ''# Guide\<newline>## Setup\<newline>text\<newline>### More\<newline>end'')
                (init ''a.md'') = Inr ([], Some r, a)
          \<and> headings_count (structure_analysis r) = 0)"
  using headings_zero_without_hashes
    [of "''# Guide\<newline>## Setup\<newline>text\<newline>### More\<newline>end''" "''a.md''"]
  by (auto simp: headed_after_header)


text \<open>
  With a hash left the count is not always 0: in \<open> ## A\<close> the hashes do not start the line,
  so the heading step leaves them; the final trim removes the blank before them, and
  structure analysis counts one sub-heading.
\<close>

theorem heading_exposed_by_trim_counterexample:
  "clean_markdown '' ## A'' = ''## A''
   \<and> \<not> isl (run_analysis (FileText '' ## A'') (init ''a.md''))
   \<and> headings_count (structure_analysis (the (fst (snd (projr
        (run_analysis (FileText '' ## A'') (init ''a.md''))))))) = 1"
proof -
  obtain a0 where ld: "load_content (FileText '' ## A'') (init ''a.md'') = (True, [], a0)"
    and c0: "content a0 = ''## A''"
    by (simp add: load_text indented_clean indented_title)
  obtain rc a1 where ac: "analyze_content a0 = Inr (rc, a1)"
    and c1: "content a1 = content a0"
    using analyze_content_total [of a0] by blast
  have "headings_count (analyze_structure a1) = 1"
    by (simp add: headings_count_eq c1 c0 indented_headings)
  then show ?thesis
    by (simp add: run_analysis_text [OF ld ac] indented_clean)
qed

end
